theory Spec2Isabelle
  imports Complex_Main "HOL-Library.Sublist"
begin

section \<open>ProcessingModal (frontend/components/processing-modal.tsx)\<close>

text \<open>
  The modal keeps two pieces of React state, \<open>step\<close> and \<open>isComplete\<close>. Its effect
  installs one interval timer; the timer callback is the only code that changes \<open>step\<close>.
  The model adds what the callback does to the timers: \<open>interval_live\<close> is false once
  \<open>clearInterval\<close> has run, and \<open>scheduled\<close> counts the \<open>setTimeout\<close> calls that will
  invoke \<open>onComplete(memeId)\<close>.
\<close>

definition steps :: "string list" where
  "steps = [''Uploading meme...'', ''Analyzing segments...'', ''Generating depth maps...'',
            ''Creating 3D mesh...'', ''Processing complete!'']"

record modal =
  step :: nat
  isComplete :: bool
  interval_live :: bool
  scheduled :: nat

definition modal_init :: modal where
  "modal_init = \<lparr>step = 0, isComplete = False, interval_live = True, scheduled = 0\<rparr>"

text \<open>
  One firing of the interval (every 1200 ms). A cleared interval does not fire, so the
  state stays as it is. Otherwise the updater passed to \<open>setStep\<close> runs:
  \<^verbatim>\<open>if (prev >= steps.length - 1) { setIsComplete(true); clearInterval(interval);
       setTimeout(() => onComplete(memeId), 2000); return prev }  return prev + 1\<close>
\<close>

definition tick :: "modal \<Rightarrow> modal" where
  "tick m =
     (if \<not> interval_live m then m
      else if int (step m) \<ge> int (length steps) - 1
        then m\<lparr>isComplete := True, interval_live := False, scheduled := scheduled m + 1\<rparr>
      else m\<lparr>step := step m + 1\<rparr>)"

text \<open>The modal after \<open>n\<close> firings of the timer, from its initial state.\<close>

fun run :: "nat \<Rightarrow> modal" where
  "run 0 = modal_init"
| "run (Suc n) = tick (run n)"

text \<open>What the list in the modal shows for the stage at index \<open>idx\<close>.\<close>

datatype icon = CheckCircle | Spinner | EmptyCircle

definition stage_icon :: "modal \<Rightarrow> nat \<Rightarrow> icon" where
  "stage_icon m idx =
     (if idx < step m then CheckCircle else if idx = step m then Spinner else EmptyCircle)"

text \<open>
  The modal has no input from the backend: it takes \<open>memeId\<close> and \<open>onComplete\<close> and issues
  no request. To speak about stage completions at all, a screen pairs the modal with the
  set of stage indices whose completion has really happened on the backend; the timer
  callback neither reads nor writes that set.
\<close>

record screen =
  ui :: modal
  completed :: "nat set"

definition on_interval :: "screen \<Rightarrow> screen" where
  "on_interval w = w\<lparr>ui := tick (ui w)\<rparr>"

text \<open>
  The property "the displayed stage advances only after the completion of the stage it
  leaves", as a check on one firing of the timer.
\<close>

definition advance_backed :: "screen \<Rightarrow> bool" where
  "advance_backed w =
     (step (ui (on_interval w)) \<noteq> step (ui w) \<longrightarrow> step (ui w) \<in> completed w)"

section \<open>JavaScript values and the network\<close>

text \<open>
  The handlers read response bodies that TypeScript types as \<open>any\<close>, so the model keeps
  the run-time values: what \<open>JSON.parse\<close> can produce, and \<open>undefined\<close> for an absent
  property.
\<close>

datatype jsval =
    Undefined
  | Null
  | Bool bool
  | Num rat
  | Str string
  | Arr "jsval list"
  | Obj "(string \<times> jsval) list"

fun truthy :: "jsval \<Rightarrow> bool" where
  "truthy Undefined = False"
| "truthy Null = False"
| "truthy (Bool b) = b"
| "truthy (Num n) = (n \<noteq> 0)"
| "truthy (Str s) = (s \<noteq> [])"
| "truthy (Arr xs) = True"
| "truthy (Obj kvs) = True"

text \<open>The operator \<open>a || b\<close>.\<close>

definition js_or :: "jsval \<Rightarrow> jsval \<Rightarrow> jsval" where
  "js_or a b = (if truthy a then a else b)"

fun is_array :: "jsval \<Rightarrow> bool" where
  "is_array (Arr xs) = True"
| "is_array v = False"

datatype js_error = TypeError | FetchRejected | JsonRejected | UploadFailed

text \<open>
  Property access \<open>v.k\<close>, for the keys the handlers read (\<open>trends\<close>, \<open>meme_id\<close>,
  \<open>image_url\<close>, \<open>url\<close>), none of which a prototype defines: it throws on \<open>null\<close> and
  \<open>undefined\<close>, reads an object's own property, and is \<open>undefined\<close> otherwise.
\<close>

fun get_prop :: "jsval \<Rightarrow> string \<Rightarrow> js_error + jsval" where
  "get_prop Undefined k = Inl TypeError"
| "get_prop Null k = Inl TypeError"
| "get_prop (Obj kvs) k = Inr (case map_of kvs k of None \<Rightarrow> Undefined | Some v \<Rightarrow> v)"
| "get_prop v k = Inr Undefined"

record js_file =
  fname :: string
  ftype :: string

datatype request =
    PostUpload js_file string
  | GetTrending string
  | PostGenerate3D jsval
  | PostExport jsval string

text \<open>
  A \<open>fetch\<close> promise either rejects (the network failed) or resolves to a response with
  its \<open>ok\<close> flag; \<open>response.json()\<close> then yields the parsed body, or rejects (no body here).
\<close>

datatype response = Response (ok: bool) (body: "jsval option")

datatype outcome = Rejected | Resolved response

text \<open>
  The network as the handlers see it: the outcomes that the next requests will get, in
  order (none left: the request is rejected), and the log of the requests issued so far.
\<close>

record net =
  pending :: "outcome list"
  requests :: "request list"

definition fetch :: "request \<Rightarrow> net \<Rightarrow> outcome \<times> net" where
  "fetch r n =
     (case pending n of
        [] \<Rightarrow> (Rejected, n\<lparr>requests := requests n @ [r]\<rparr>)
      | x # xs \<Rightarrow> (x, n\<lparr>pending := xs, requests := requests n @ [r]\<rparr>))"

section \<open>The page and its components\<close>

record meme =
  meme_id :: jsval
  image_url :: jsval
  status :: string
  created_at :: string

text \<open>Home (frontend/app/page.tsx).\<close>

record home =
  memes :: "meme list"
  isProcessing :: bool
  currentMemeId :: "jsval option"

text \<open>UploadSection (frontend/components/upload-section.tsx).\<close>

record upload_section =
  isLoading :: bool
  error :: "string option"
  input_resets :: nat

text \<open>TrendingSection (unnamed/part_001).\<close>

record trending_section =
  trends :: jsval
  trendsLoading :: bool
  selectedCategory :: string

text \<open>MemeGallery (the second component in frontend/components/header.tsx).\<close>

record gallery =
  generatingId :: "jsval option"
  exportingId :: "jsval option"
  opened :: "jsval list"
  console_log :: "jsval list"

record app =
  network :: net
  page :: home
  uploader :: upload_section
  trending :: trending_section
  memeGallery :: gallery

definition app_init :: "outcome list \<Rightarrow> app" where
  "app_init outs =
     \<lparr>network = \<lparr>pending = outs, requests = []\<rparr>,
      page = \<lparr>memes = [], isProcessing = False, currentMemeId = None\<rparr>,
      uploader = \<lparr>isLoading = False, error = None, input_resets = 0\<rparr>,
      trending = \<lparr>trends = Arr [], trendsLoading = True, selectedCategory = ''memes''\<rparr>,
      memeGallery = \<lparr>generatingId = None, exportingId = None, opened = [], console_log = []\<rparr>\<rparr>"

text \<open>
  Each asynchronous handler is modelled from its call to the end of its \<open>finally\<close>
  block, as one step on the state of the page: what it sets before awaiting the response
  (\<open>setIsLoading(true)\<close>, \<open>setGeneratingId(memeId)\<close>, \<open>setExportingId(memeId)\<close>) is
  overwritten in \<open>finally\<close> and does not show in the resulting state.
\<close>

text \<open>\<open>handleUploadSuccess\<close> of Home; \<open>now\<close> is \<open>new Date().toISOString()\<close>.\<close>

definition handleUploadSuccess :: "string \<Rightarrow> jsval \<Rightarrow> jsval \<Rightarrow> home \<Rightarrow> home" where
  "handleUploadSuccess now memeId imageUrl h =
     h\<lparr>memes := \<lparr>meme_id = memeId, image_url = imageUrl, status = ''processing'',
                   created_at = now\<rparr> # memes h,
       isProcessing := True,
       currentMemeId := Some memeId\<rparr>"

text \<open>
  The \<open>try\<close> block of \<open>handleFileUpload\<close>: what it yields (the two fields read from the
  body) or what it throws, and the network after the one request it issues.
\<close>

definition upload_try ::
  "string \<Rightarrow> js_file \<Rightarrow> net \<Rightarrow> (js_error + jsval \<times> jsval) \<times> net" where
  "upload_try userId f n =
     (case fetch (PostUpload f userId) n of
        (Rejected, n') \<Rightarrow> (Inl FetchRejected, n')
      | (Resolved r, n') \<Rightarrow>
          (if \<not> ok r then (Inl UploadFailed, n')
           else case body r of
                  None \<Rightarrow> (Inl JsonRejected, n')
                | Some data \<Rightarrow>
                    (case get_prop data ''meme_id'' of
                       Inl e \<Rightarrow> (Inl e, n')
                     | Inr mid \<Rightarrow>
                         (case get_prop data ''image_url'' of
                            Inl e \<Rightarrow> (Inl e, n')
                          | Inr url \<Rightarrow> (Inr (mid, url), n')))))"

definition handleFileUpload :: "string \<Rightarrow> string \<Rightarrow> js_file \<Rightarrow> app \<Rightarrow> app" where
  "handleFileUpload userId now f a =
     (if \<not> prefix ''image/'' (ftype f)
      then a\<lparr>uploader := (uploader a)\<lparr>error := Some ''Please select an image file''\<rparr>\<rparr>
      else
        (case upload_try userId f (network a) of
           (Inr (mid, url), n') \<Rightarrow>
             a\<lparr>network := n',
               page := handleUploadSuccess now mid url (page a),
               uploader := (uploader a)\<lparr>isLoading := False, error := None,
                                         input_resets := input_resets (uploader a) + 1\<rparr>\<rparr>
         | (Inl e, n') \<Rightarrow>
             a\<lparr>network := n',
               uploader := (uploader a)\<lparr>isLoading := False,
                                         error := Some ''Failed to upload. Please try again.''\<rparr>\<rparr>))"

text \<open>
  \<open>fetchTrending\<close>: the value the \<open>try\<close>/\<open>catch\<close> passes to \<open>setTrends\<close>. The response's
  \<open>ok\<close> flag is not looked at.
\<close>

definition trends_of :: "outcome \<Rightarrow> jsval" where
  "trends_of out =
     (case out of
        Rejected \<Rightarrow> Arr []
      | Resolved r \<Rightarrow>
          (case body r of
             None \<Rightarrow> Arr []
           | Some data \<Rightarrow>
               (case get_prop data ''trends'' of
                  Inl e \<Rightarrow> Arr []
                | Inr v \<Rightarrow> js_or v (Arr []))))"

definition fetchTrending :: "app \<Rightarrow> app" where
  "fetchTrending a =
     (case fetch (GetTrending (selectedCategory (trending a))) (network a) of
        (out, n') \<Rightarrow>
          a\<lparr>network := n',
            trending := (trending a)\<lparr>trends := trends_of out, trendsLoading := False\<rparr>\<rparr>)"

text \<open>\<open>handleGenerate3D\<close> and \<open>handleExport\<close> of MemeGallery.\<close>

definition handleGenerate3D :: "jsval \<Rightarrow> app \<Rightarrow> app" where
  "handleGenerate3D memeId a =
     (case fetch (PostGenerate3D memeId) (network a) of
        (out, n') \<Rightarrow>
          a\<lparr>network := n',
            memeGallery :=
              (case out of
                 Resolved (Response True (Some data)) \<Rightarrow>
                   (memeGallery a)\<lparr>generatingId := None,
                                   console_log := console_log (memeGallery a) @ [data]\<rparr>
               | _ \<Rightarrow> (memeGallery a)\<lparr>generatingId := None\<rparr>)\<rparr>)"

definition handleExport :: "jsval \<Rightarrow> app \<Rightarrow> app" where
  "handleExport memeId a =
     (case fetch (PostExport memeId ''gif'') (network a) of
        (out, n') \<Rightarrow>
          a\<lparr>network := n',
            memeGallery :=
              (case out of
                 Resolved (Response True (Some data)) \<Rightarrow>
                   (case get_prop data ''url'' of
                      Inl e \<Rightarrow> (memeGallery a)\<lparr>exportingId := None\<rparr>
                    | Inr u \<Rightarrow> (memeGallery a)\<lparr>exportingId := None,
                                                opened := opened (memeGallery a) @ [u]\<rparr>)
               | _ \<Rightarrow> (memeGallery a)\<lparr>exportingId := None\<rparr>)\<rparr>)"

text \<open>
  What the user and React can make happen on the page. Mounting the page runs the effect
  of TrendingSection; choosing another category re-runs it (the same category leaves the
  effect's dependency unchanged). MemeGallery renders its two buttons once per meme of
  the list: the "Generate 3D" button is disabled while the meme's status is
  \<open>processing\<close>, the export button is always enabled between two handler runs
  (\<open>generatingId\<close> and \<open>exportingId\<close> are \<open>null\<close> then).
\<close>

datatype event =
    Mount
  | SelectCategory string
  | ChooseFile js_file
  | ClickGenerate jsval
  | ClickExport jsval

definition dispatch :: "string \<Rightarrow> string \<Rightarrow> event \<Rightarrow> app \<Rightarrow> app" where
  "dispatch userId now e a =
     (case e of
        Mount \<Rightarrow> fetchTrending a
      | SelectCategory c \<Rightarrow>
          (if c = selectedCategory (trending a) then a
           else fetchTrending (a\<lparr>trending := (trending a)\<lparr>selectedCategory := c\<rparr>\<rparr>))
      | ChooseFile f \<Rightarrow> handleFileUpload userId now f a
      | ClickGenerate i \<Rightarrow>
          (if list_ex (\<lambda>m. meme_id m = i \<and> status m \<noteq> ''processing'') (memes (page a))
           then handleGenerate3D i a else a)
      | ClickExport i \<Rightarrow>
          (if list_ex (\<lambda>m. meme_id m = i) (memes (page a)) then handleExport i a else a))"

fun play :: "string \<Rightarrow> string \<Rightarrow> event list \<Rightarrow> app \<Rightarrow> app" where
  "play userId now [] a = a"
| "play userId now (e # es) a = play userId now es (dispatch userId now e a)"

fun is_trending_request :: "request \<Rightarrow> bool" where
  "is_trending_request (GetTrending c) = True"
| "is_trending_request r = False"

fun is_export_request :: "request \<Rightarrow> bool" where
  "is_export_request (PostExport i fmt) = True"
| "is_export_request r = False"

text \<open>
  The property "a trend request is only issued after an export", on a request log: every
  trend request has an export request before it.
\<close>

definition trend_only_after_export :: "request list \<Rightarrow> bool" where
  "trend_only_after_export rs =
     (\<forall>i < length rs. is_trending_request (rs ! i) \<longrightarrow>
        (\<exists>j < i. is_export_request (rs ! j)))"

text \<open>
  The call \<open>trends.map(...)\<close> in the render of TrendingSection, as far as the call itself:
  only an array has a callable \<open>map\<close>, on any other value the call throws a TypeError
  and the render fails.
\<close>

definition trends_map :: "jsval \<Rightarrow> js_error + jsval list" where
  "trends_map t = (case t of Arr xs \<Rightarrow> Inr xs | _ \<Rightarrow> Inl TypeError)"

section \<open>The modal on the page\<close>

text \<open>\<open>handleProcessingComplete\<close> of Home; its argument \<open>memeId\<close> is not used.\<close>

definition handleProcessingComplete :: "home \<Rightarrow> home" where
  "handleProcessingComplete h = h\<lparr>isProcessing := False, currentMemeId := None\<rparr>"

text \<open>
  The ProcessingModal instance that Home has mounted: its \<open>memeId\<close> prop and its state.
\<close>

record mounted =
  shown_for :: jsval
  widget :: modal

text \<open>
  What a render of Home does to the modal, \<open>isProcessing && currentMemeId && <ProcessingModal
  memeId={currentMemeId} onComplete={handleProcessingComplete} />\<close>. The element has no
  \<open>key\<close>: a modal that is already mounted is kept with its state (\<open>step\<close>,
  \<open>isComplete\<close>) and only gets the new prop; since \<open>onComplete\<close> is a new function at
  every render of Home, the effect is re-run, which clears the old interval and starts a
  new one. Without a mounted modal a fresh one is mounted.
\<close>

definition show_modal :: "home \<Rightarrow> mounted option \<Rightarrow> mounted option" where
  "show_modal h old =
     (case currentMemeId h of
        None \<Rightarrow> None
      | Some i \<Rightarrow>
          (if \<not> (isProcessing h \<and> truthy i) then None
           else case old of
                  None \<Rightarrow> Some \<lparr>shown_for = i, widget = modal_init\<rparr>
                | Some md \<Rightarrow> Some \<lparr>shown_for = i, widget = (widget md)\<lparr>interval_live := True\<rparr>\<rparr>))"

record page_view =
  app_state :: app
  processing_modal :: "mounted option"

definition view_init :: "outcome list \<Rightarrow> page_view" where
  "view_init outs = \<lparr>app_state = app_init outs, processing_modal = None\<rparr>"

text \<open>
  The events of the page with its modal: the events of the page above, a firing of the
  modal's interval, and a firing of the timeout that calls \<open>onComplete(memeId)\<close>. Home
  renders again when its own state has changed; the state of the other components is
  theirs alone.
\<close>

datatype view_event = User event | TimerFires | TimeoutFires

definition view_step :: "string \<Rightarrow> string \<Rightarrow> view_event \<Rightarrow> page_view \<Rightarrow> page_view" where
  "view_step userId now ve v =
     (case ve of
        User e \<Rightarrow>
          (let a' = dispatch userId now e (app_state v)
           in \<lparr>app_state = a',
               processing_modal =
                 (if page a' = page (app_state v) then processing_modal v
                  else show_modal (page a') (processing_modal v))\<rparr>)
      | TimerFires \<Rightarrow>
          (case processing_modal v of
             None \<Rightarrow> v
           | Some md \<Rightarrow> v\<lparr>processing_modal := Some (md\<lparr>widget := tick (widget md)\<rparr>)\<rparr>)
      | TimeoutFires \<Rightarrow>
          (case processing_modal v of
             None \<Rightarrow> v
           | Some md \<Rightarrow>
               (if scheduled (widget md) = 0 then v
                else \<lparr>app_state =
                        (app_state v)\<lparr>page := handleProcessingComplete (page (app_state v))\<rparr>,
                      processing_modal =
                        show_modal (handleProcessingComplete (page (app_state v)))
                          (Some md)\<rparr>)))"

fun view_play :: "string \<Rightarrow> string \<Rightarrow> view_event list \<Rightarrow> page_view \<Rightarrow> page_view" where
  "view_play userId now [] v = v"
| "view_play userId now (e # es) v = view_play userId now es (view_step userId now e v)"

text \<open>What the modal displays: the project it is shown for and the index of its current stage.\<close>

definition displayed :: "page_view \<Rightarrow> (jsval \<times> nat) option" where
  "displayed v = map_option (\<lambda>md. (shown_for md, step (widget md))) (processing_modal v)"

text \<open>
  The property "the stage on display is entered only after all earlier stages have
  completed", on a screen.
\<close>

definition earlier_stages_completed :: "screen \<Rightarrow> bool" where
  "earlier_stages_completed w = (\<forall>j < step (ui w). j \<in> completed w)"

section \<open>SceneGraph\<close>

text \<open>
  Modelled from the spec: the error taxonomy of section 7, of which the scene graph uses
  \<open>CycleError\<close> (invalid attach) and \<open>ValidationError\<close> (out-of-range input). The
  backend that raises these errors is not among the sources.
\<close>

datatype pipeline_error =
    ValidationError
  | ReconstructionError
  | CycleError
  | RenderError
  | EncodingError
  | ConflictError
  | ExternalServiceError

text \<open>
  Modelled from the spec: the scene graph's storage, which is not among the sources. By
  the design notes the tree is held as parent indices into an object pool: entry \<open>i\<close> of
  the list is the optional parent reference of scene object \<open>i\<close>.
\<close>

type_synonym scene_graph = "nat option list"

text \<open>
  Modelled from the spec: the ancestry walk behind "validating ancestry at attach time",
  which is not among the sources. \<open>chain g k n\<close> lists \<open>n\<close>, its parent, its grandparent
  and so on, at most \<open>k\<close> objects.
\<close>

fun chain :: "scene_graph \<Rightarrow> nat \<Rightarrow> nat \<Rightarrow> nat list" where
  "chain g 0 n = []"
| "chain g (Suc k) n =
     (if n < length g
      then n # (case g ! n of None \<Rightarrow> [] | Some p \<Rightarrow> chain g k p)
      else [])"

text \<open>
  Modelled from the spec: the test "parent is a descendant of object" made by attach,
  which is not among the sources: walking up from \<open>p\<close> meets \<open>obj\<close>. An object counts
  here as its own descendant, since attaching an object under itself is a cycle too.
\<close>

definition is_descendant :: "scene_graph \<Rightarrow> nat \<Rightarrow> nat \<Rightarrow> bool" where
  "is_descendant g p obj = (obj \<in> set (chain g (length g) p))"

text \<open>
  Modelled from the spec: \<open>attach(object, parent?)\<close> of SceneGraph, which is not among
  the sources. It "fails with CycleError if parent is a descendant of object"; an index
  outside the pool is out-of-range input; without a parent the object becomes a root.
\<close>

definition attach :: "scene_graph \<Rightarrow> nat \<Rightarrow> nat option \<Rightarrow> pipeline_error + scene_graph" where
  "attach g obj parent =
     (if \<not> obj < length g then Inl ValidationError
      else case parent of
             None \<Rightarrow> Inr (g[obj := None])
           | Some p \<Rightarrow>
               (if \<not> p < length g then Inl ValidationError
                else if is_descendant g p obj then Inl CycleError
                else Inr (g[obj := Some p])))"

text \<open>
  Modelled from the spec: the graph held by SceneGraph after an attach request, which is
  not among the sources: a failed attach leaves the graph as it was.
\<close>

definition graph_after :: "scene_graph \<Rightarrow> nat \<Rightarrow> nat option \<Rightarrow> scene_graph" where
  "graph_after g obj parent = (case attach g obj parent of Inl e \<Rightarrow> g | Inr g' \<Rightarrow> g')"

text \<open>
  Modelled from the spec: the parent references of a graph as a relation from child to
  parent, to state "descendant" and "no cycles" independently of the walk above.
\<close>

definition parent_rel :: "scene_graph \<Rightarrow> (nat \<times> nat) set" where
  "parent_rel g = {(c, p). c < length g \<and> g ! c = Some p}"

section \<open>PipelineOrchestrator\<close>

text \<open>
  Modelled from the spec: the stages of section 4.6 (segmentation, reconstruction,
  composition-ready, export); the orchestrator is not among the sources.
\<close>

datatype stage = Segmentation | Reconstruction | Composition | Export

text \<open>
  Modelled from the spec: the project states \<open>{uploaded, segmented, reconstructed,
  composed, exported, failed}\<close>, the failed state "tagged with the failed stage name";
  the orchestrator is not among the sources.
\<close>

datatype project_state = Uploaded | Segmented | Reconstructed | Composed | Exported | Failed stage

text \<open>Modelled from the spec: the position of a stage in the pipeline order.\<close>

fun stage_index :: "stage \<Rightarrow> nat" where
  "stage_index Segmentation = 0"
| "stage_index Reconstruction = 1"
| "stage_index Composition = 2"
| "stage_index Export = 3"

text \<open>Modelled from the spec: the state a project enters when a stage completes.\<close>

fun state_after :: "stage \<Rightarrow> project_state" where
  "state_after Segmentation = Segmented"
| "state_after Reconstruction = Reconstructed"
| "state_after Composition = Composed"
| "state_after Export = Exported"

text \<open>
  Modelled from the spec: how many stages a project has completed. A failed project
  stands at "the state preceding the failed stage": the artifacts of the earlier stages
  are kept.
\<close>

fun progress :: "project_state \<Rightarrow> nat" where
  "progress Uploaded = 0"
| "progress Segmented = 1"
| "progress Reconstructed = 2"
| "progress Composed = 3"
| "progress Exported = 4"
| "progress (Failed s) = stage_index s"

text \<open>
  Modelled from the spec: a project as the orchestrator sees it, its lifecycle state and
  the append-only store of the artifacts its stages produced (the stage and the blob
  reference of each version); the orchestrator is not among the sources.
\<close>

record project =
  lifecycle :: project_state
  store :: "(stage \<times> nat) list"

text \<open>Modelled from the spec: the artifact versions a stage has produced so far.\<close>

definition artifacts_of :: "project \<Rightarrow> stage \<Rightarrow> nat list" where
  "artifacts_of p s = map snd (filter (\<lambda>e. fst e = s) (store p))"

text \<open>
  Modelled from the spec: what invoking a stage reports: the existing result of a stage
  already passed, a newly produced artifact, a failure, or a refusal to run a stage
  before the earlier ones have completed.
\<close>

datatype stage_report = Existing "nat list" | Produced nat | StageFailure pipeline_error | NotReady

text \<open>
  Modelled from the spec: invoking a stage (section 4.6), which is not among the sources.
  \<open>work\<close> is the computation of the stage. "Re-invoking the stage for an already-advanced
  state is a no-op that returns the existing result rather than recomputing"; "on stage
  failure, the project moves to failed tagged with the failed stage name"; stages "never
  run out of order".
\<close>

definition run_stage ::
  "(stage \<Rightarrow> project \<Rightarrow> pipeline_error + nat) \<Rightarrow> stage \<Rightarrow> project \<Rightarrow> stage_report \<times> project" where
  "run_stage work s p =
     (if stage_index s < progress (lifecycle p) then (Existing (artifacts_of p s), p)
      else if progress (lifecycle p) < stage_index s then (NotReady, p)
      else case work s p of
             Inl e \<Rightarrow> (StageFailure e, p\<lparr>lifecycle := Failed s\<rparr>)
           | Inr a \<Rightarrow> (Produced a, p\<lparr>lifecycle := state_after s, store := store p @ [(s, a)]\<rparr>))"

section \<open>Renderer and FrameEncoder\<close>








text \<open>Modelled from the spec: the target formats of an export (loop-image or video).\<close>

datatype export_format = LoopImage | Video







section \<open>Properties of the modal\<close>

lemma length_steps: "length steps = 5"
  by (simp add: steps_def)

lemma run_shape:
  "run n = \<lparr>step = min n 4, isComplete = (5 \<le> n), interval_live = (n < 5),
            scheduled = (if 5 \<le> n then 1 else 0)\<rparr>"
proof (induction n)
  case 0
  show ?case by (simp add: modal_init_def)
next
  case (Suc n)
  show ?case
    by (simp add: Suc tick_def length_steps min_def)
qed

lemma step_run: "step (run n) = min n 4"
  by (simp add: run_shape)

lemma funpow_on_interval:
  "(on_interval ^^ n) \<lparr>ui = m, completed = S\<rparr> = \<lparr>ui = (tick ^^ n) m, completed = S\<rparr>"
  by (induction n) (simp_all add: on_interval_def)

lemma funpow_tick_init: "(tick ^^ n) modal_init = run n"
  by (induction n) simp_all

lemma step_tick: "step (tick m) = step m \<or> step (tick m) = Suc (step m)"
  by (simp add: tick_def)

lemma step_tick_le: "step m \<le> step (tick m)"
  using step_tick [of m] by auto

lemma step_funpow_tick_le: "step m \<le> step ((tick ^^ n) m)"
proof (induction n)
  case 0
  show ?case by simp
next
  case (Suc n)
  have "step ((tick ^^ n) m) \<le> step (tick ((tick ^^ n) m))" by (rule step_tick_le)
  with Suc show ?case by simp
qed

lemma step_tick_in_list: "step m < length steps \<Longrightarrow> step (tick m) < length steps"
  by (auto simp: tick_def length_steps)

lemma step_funpow_tick_in_list:
  "step m < length steps \<Longrightarrow> step ((tick ^^ n) m) < length steps"
  by (induction n) (simp_all add: step_tick_in_list)

lemma timer_fires_on_modal:
  "view_play u now (replicate n TimerFires) (v\<lparr>processing_modal := Some md\<rparr>)
     = v\<lparr>processing_modal := Some (md\<lparr>widget := (tick ^^ n) (widget md)\<rparr>)\<rparr>"
proof (induction n arbitrary: md)
  case 0
  show ?case by simp
next
  case (Suc n)
  have "view_step u now TimerFires (v\<lparr>processing_modal := Some md\<rparr>)
          = v\<lparr>processing_modal := Some (md\<lparr>widget := tick (widget md)\<rparr>)\<rparr>"
    by (simp add: view_step_def)
  then show ?case
    by (simp add: Suc funpow_swap1)
qed

text \<open>
  C1, as stated, fails, in two ways. A stage is entered before the earlier ones have
  completed: with the upload (stage 0) as the only completed stage, two firings of the
  timer put the display at stage 2. And a stage is skipped: a second upload that succeeds
  while the modal of the first is on display re-uses that modal, so the second project
  is first shown at stage 2, never at stages 0 and 1.
\<close>

theorem stage_entered_early_counterexample:
  "\<not> earlier_stages_completed (on_interval (on_interval \<lparr>ui = modal_init, completed = {0}\<rparr>))
   \<and> displayed (view_play ''user-1'' ''t0''
        [User (ChooseFile \<lparr>fname = ''cat.png'', ftype = ''image/png''\<rparr>),
         TimerFires, TimerFires,
         User (ChooseFile \<lparr>fname = ''dog.png'', ftype = ''image/png''\<rparr>)]
        (view_init
          [Resolved (Response True (Some (Obj [(''meme_id'', Str ''m1''),
                                               (''image_url'', Str ''/uploads/m1.png'')]))),
           Resolved (Response True (Some (Obj [(''meme_id'', Str ''m2''),
                                               (''image_url'', Str ''/uploads/m2.png'')])))]))
      = Some (Str ''m2'', 2)"
proof -
  have "step (ui (on_interval (on_interval \<lparr>ui = modal_init, completed = {0}\<rparr>))) = 2"
    by (simp add: on_interval_def tick_def modal_init_def length_steps)
  then have a: "\<not> earlier_stages_completed
                   (on_interval (on_interval \<lparr>ui = modal_init, completed = {0}\<rparr>))"
    by (auto simp: earlier_stages_completed_def on_interval_def intro!: exI [of _ 1])
  have b: "displayed (view_play ''user-1'' ''t0''
        [User (ChooseFile \<lparr>fname = ''cat.png'', ftype = ''image/png''\<rparr>),
         TimerFires, TimerFires,
         User (ChooseFile \<lparr>fname = ''dog.png'', ftype = ''image/png''\<rparr>)]
        (view_init
          [Resolved (Response True (Some (Obj [(''meme_id'', Str ''m1''),
                                               (''image_url'', Str ''/uploads/m1.png'')]))),
           Resolved (Response True (Some (Obj [(''meme_id'', Str ''m2''),
                                               (''image_url'', Str ''/uploads/m2.png'')])))]))
      = Some (Str ''m2'', 2)"
    by (simp add: view_init_def app_init_def view_step_def dispatch_def handleFileUpload_def
        upload_try_def fetch_def handleUploadSuccess_def show_modal_def displayed_def
        tick_def modal_init_def length_steps Let_def)
  from a b show ?thesis by blast
qed

text \<open>
  C1, amended. The stage index displayed by the processing modal moves through the five
  stages one step at a time: from any state of the modal a firing of the timer leaves the
  index as it is or raises it by exactly one, over any number of firings it never
  decreases, and it never leaves the list of stages. In a modal mounted fresh for
  project \<open>i\<close> the display after \<open>n\<close> firings is stage \<open>min n 4\<close> of that project, so
  every earlier stage was on display before a later one is entered. This is the order of
  the display, which the timer drives; it is not tied to the completion of the stages.
\<close>

theorem modal_display_order:
  "(step (tick m) = step m \<or> step (tick m) = Suc (step m))
   \<and> step m \<le> step ((tick ^^ n) m)
   \<and> (step m < length steps \<longrightarrow> step ((tick ^^ n) m) < length steps)
   \<and> displayed (view_play u now (replicate n TimerFires)
         (v\<lparr>processing_modal := Some \<lparr>shown_for = i, widget = modal_init\<rparr>\<rparr>))
       = Some (i, step (run n))
   \<and> step (run n) = min n 4
   \<and> (\<forall>j < step (run n). \<exists>k < n. step (run k) = j)"
proof -
  have d: "displayed (view_play u now (replicate n TimerFires)
         (v\<lparr>processing_modal := Some \<lparr>shown_for = i, widget = modal_init\<rparr>\<rparr>))
       = Some (i, step (run n))"
    by (simp add: timer_fires_on_modal displayed_def funpow_tick_init)
  have e: "\<exists>k < n. step (run k) = j" if "j < step (run n)" for j
  proof -
    from that have "j < n" "j < 4" by (simp_all add: step_run)
    then have "step (run j) = j" by (simp add: step_run)
    with \<open>j < n\<close> show ?thesis by blast
  qed
  from step_tick [of m] step_funpow_tick_le [of m n] step_funpow_tick_in_list [of m n] d
    step_run [of n] e
  show ?thesis by blast
qed

theorem modal_display_order_witness:
  "step ((tick ^^ 3) modal_init) < length steps
   \<and> (1::nat) < step (run 3) \<and> (\<exists>k < 3. step (run k) = 1)"
proof -
  have h1: "step modal_init < length steps" by (simp add: modal_init_def length_steps)
  have h2: "(1::nat) < step (run 3)" by (simp add: step_run)
  from modal_display_order [of modal_init 3] h1 h2 show ?thesis by blast
qed

text \<open>
  C3, as stated, fails: the upload (stage 0) has completed and nothing else, the modal
  has fired once and displays stage 1; the next firing moves the display to stage 2
  although stage 1 has not completed.
\<close>

theorem display_advances_unbacked_counterexample:
  "\<not> advance_backed (on_interval \<lparr>ui = modal_init, completed = {0}\<rparr>)"
  by (simp add: advance_backed_def on_interval_def tick_def modal_init_def length_steps)

lemma memes_dispatch:
  "memes (page (dispatch u now e a)) =
     (case e of
        ChooseFile f \<Rightarrow>
          (if prefix ''image/'' (ftype f)
           then (case fst (upload_try u f (network a)) of
                   Inr (mid, url) \<Rightarrow>
                     \<lparr>meme_id = mid, image_url = url, status = ''processing'',
                      created_at = now\<rparr> # memes (page a)
                 | Inl err \<Rightarrow> memes (page a))
           else memes (page a))
      | _ \<Rightarrow> memes (page a))"
  by (cases e)
     (auto simp: dispatch_def fetchTrending_def handleFileUpload_def handleGenerate3D_def
        handleExport_def handleUploadSuccess_def split: prod.splits sum.splits)

text \<open>
  C3, amended. The displayed stage is driven by the timer alone: a firing changes the
  modal by \<open>tick\<close> and leaves the set of completed stages untouched, \<open>tick\<close> raises the
  stage by one exactly while the interval is live and the stage is below the last one,
  and after \<open>n\<close> firings the display is at stage \<open>min n 4\<close> whatever set \<open>S\<close> of stages
  has completed. The recorded status is written only when an upload completes: the new
  meme is then recorded with status \<open>processing\<close>, and no event of the page (timer and
  timeout included) changes the recorded memes otherwise, so the recorded status never
  advances.
\<close>

theorem timer_alone_advances_display:
  "ui (on_interval w) = tick (ui w)
   \<and> completed (on_interval w) = completed w
   \<and> step (tick m) = (if interval_live m \<and> step m < 4 then Suc (step m) else step m)
   \<and> step (ui ((on_interval ^^ n) \<lparr>ui = modal_init, completed = S\<rparr>)) = min n 4
   \<and> memes (page (app_state (view_step u now ve v))) =
       (case ve of
          User (ChooseFile f) \<Rightarrow>
            (if prefix ''image/'' (ftype f)
             then (case fst (upload_try u f (network (app_state v))) of
                     Inr (mid, url) \<Rightarrow>
                       \<lparr>meme_id = mid, image_url = url, status = ''processing'',
                        created_at = now\<rparr> # memes (page (app_state v))
                   | Inl err \<Rightarrow> memes (page (app_state v)))
             else memes (page (app_state v)))
        | _ \<Rightarrow> memes (page (app_state v)))"
proof -
  have r: "memes (page (app_state (view_step u now ve v))) =
       (case ve of
          User (ChooseFile f) \<Rightarrow>
            (if prefix ''image/'' (ftype f)
             then (case fst (upload_try u f (network (app_state v))) of
                     Inr (mid, url) \<Rightarrow>
                       \<lparr>meme_id = mid, image_url = url, status = ''processing'',
                        created_at = now\<rparr> # memes (page (app_state v))
                   | Inl err \<Rightarrow> memes (page (app_state v)))
             else memes (page (app_state v)))
        | _ \<Rightarrow> memes (page (app_state v)))"
  proof (cases ve)
    case (User e)
    then show ?thesis
      by (cases e) (simp_all add: view_step_def Let_def memes_dispatch)
  next
    case TimerFires
    then show ?thesis by (simp add: view_step_def split: option.splits)
  next
    case TimeoutFires
    then show ?thesis
      by (simp add: view_step_def handleProcessingComplete_def split: option.splits)
  qed
  have t: "ui (on_interval w) = tick (ui w)
   \<and> completed (on_interval w) = completed w
   \<and> step (tick m) = (if interval_live m \<and> step m < 4 then Suc (step m) else step m)
   \<and> step (ui ((on_interval ^^ n) \<lparr>ui = modal_init, completed = S\<rparr>)) = min n 4"
    by (simp add: on_interval_def tick_def length_steps funpow_on_interval funpow_tick_init step_run)
  from t r show ?thesis by blast
qed

section \<open>Properties of the upload handler\<close>

text \<open>
  C9. A file whose MIME type does not start with \<open>image/\<close> is rejected before anything
  else happens: the error message is set to "Please select an image file", the network
  (pending outcomes and request log) is untouched, so no request is issued, and the
  loading flag and the list of memes are as before.
\<close>

theorem non_image_rejected:
  "\<not> prefix ''image/'' (ftype f) \<Longrightarrow>
     error (uploader (handleFileUpload userId now f a)) = Some ''Please select an image file''
     \<and> network (handleFileUpload userId now f a) = network a
     \<and> isLoading (uploader (handleFileUpload userId now f a)) = isLoading (uploader a)
     \<and> memes (page (handleFileUpload userId now f a)) = memes (page a)"
  by (simp add: handleFileUpload_def)

theorem non_image_rejected_witness:
  "\<not> prefix ''image/'' ''application/pdf''
   \<and> error (uploader (handleFileUpload ''user-1'' ''t0''
               \<lparr>fname = ''notes.pdf'', ftype = ''application/pdf''\<rparr> (app_init [])))
       = Some ''Please select an image file''
   \<and> requests (network (handleFileUpload ''user-1'' ''t0''
               \<lparr>fname = ''notes.pdf'', ftype = ''application/pdf''\<rparr> (app_init []))) = []"
proof -
  have h: "\<not> prefix ''image/'' (ftype \<lparr>fname = ''notes.pdf'', ftype = ''application/pdf''\<rparr>)"
    by simp
  from non_image_rejected [OF h, of "''user-1''" "''t0''" "app_init []"]
  show ?thesis by (simp add: app_init_def)
qed

lemma fetch_requests: "requests (snd (fetch r n)) = requests n @ [r]"
  by (simp add: fetch_def split: list.splits)

lemma upload_try_requests:
  "requests (snd (upload_try u f n)) = requests n @ [PostUpload f u]"
  by (auto simp: upload_try_def fetch_def split: list.splits outcome.splits option.splits sum.splits prod.splits)

lemma handleFileUpload_requests:
  "requests (network (handleFileUpload u now f a)) =
     requests (network a) @ (if prefix ''image/'' (ftype f) then [PostUpload f u] else [])"
  using upload_try_requests [of u f "network a"]
  by (auto simp: handleFileUpload_def split: prod.splits sum.splits)

lemma handleGenerate3D_requests:
  "requests (network (handleGenerate3D i a)) = requests (network a) @ [PostGenerate3D i]"
  using fetch_requests [of "PostGenerate3D i" "network a"]
  by (auto simp: handleGenerate3D_def split: prod.splits)

lemma handleExport_requests:
  "requests (network (handleExport i a)) = requests (network a) @ [PostExport i ''gif'']"
  using fetch_requests [of "PostExport i ''gif''" "network a"]
  by (auto simp: handleExport_def split: prod.splits)

lemma fetchTrending_requests:
  "requests (network (fetchTrending a)) =
     requests (network a) @ [GetTrending (selectedCategory (trending a))]"
  using fetch_requests [of "GetTrending (selectedCategory (trending a))" "network a"]
  by (auto simp: fetchTrending_def split: prod.splits)






section \<open>Properties of the trending section\<close>

text \<open>
  C7, as stated, fails: mounting the page issues the trend request at once; a project
  uploaded afterwards has a trend request before it in the log and no export at all.
\<close>

theorem trend_before_export_counterexample:
  "\<not> trend_only_after_export
        (requests (network (play ''user-1'' ''t0''
           [Mount, ChooseFile \<lparr>fname = ''cat.png'', ftype = ''image/png''\<rparr>]
           (app_init [Resolved (Response True (Some (Obj [(''trends'', Arr [])]))),
                      Resolved (Response True (Some (Obj [(''meme_id'', Str ''m1''),
                                   (''image_url'', Str ''/uploads/m1.png'')])))]))))"
proof -
  have "requests (network (play ''user-1'' ''t0''
           [Mount, ChooseFile \<lparr>fname = ''cat.png'', ftype = ''image/png''\<rparr>]
           (app_init [Resolved (Response True (Some (Obj [(''trends'', Arr [])]))),
                      Resolved (Response True (Some (Obj [(''meme_id'', Str ''m1''),
                                   (''image_url'', Str ''/uploads/m1.png'')])))])))
        = [GetTrending ''memes'', PostUpload \<lparr>fname = ''cat.png'', ftype = ''image/png''\<rparr> ''user-1'']"
    by (simp add: dispatch_def fetchTrending_def handleFileUpload_def upload_try_def fetch_def
        app_init_def)
  then show ?thesis
    by (auto simp: trend_only_after_export_def intro!: exI [of _ 0])
qed

lemma trending_requests_dispatch:
  "filter is_trending_request (requests (network (dispatch u now e a))) =
     filter is_trending_request (requests (network a)) @
       (case e of
          Mount \<Rightarrow> [GetTrending (selectedCategory (trending a))]
        | SelectCategory c \<Rightarrow> (if c = selectedCategory (trending a) then [] else [GetTrending c])
        | _ \<Rightarrow> [])"
  by (cases e)
     (simp_all add: dispatch_def fetchTrending_requests handleFileUpload_requests
        handleGenerate3D_requests handleExport_requests)

lemma handleFileUpload_frame:
  "handleFileUpload u now f (a\<lparr>trending := t\<rparr>) = (handleFileUpload u now f a)\<lparr>trending := t\<rparr>"
  by (simp add: handleFileUpload_def split: prod.splits sum.splits)

lemma handleGenerate3D_frame:
  "handleGenerate3D i (a\<lparr>trending := t\<rparr>) = (handleGenerate3D i a)\<lparr>trending := t\<rparr>"
  by (auto simp: handleGenerate3D_def
      split: prod.splits outcome.splits response.splits option.splits bool.splits)

lemma handleExport_frame:
  "handleExport i (a\<lparr>trending := t\<rparr>) = (handleExport i a)\<lparr>trending := t\<rparr>"
  by (auto simp: handleExport_def
      split: prod.splits outcome.splits response.splits option.splits bool.splits sum.splits)

text \<open>
  C7, amended. The trend request is issued when the page mounts and whenever the
  selected category changes (selecting the current category issues nothing), whatever
  the state of any project, and no other event of the page issues one. No pipeline
  handler waits on or reads the trend response: upload, 3D generation and export, as
  handlers and as events of the page, compute the same result whatever the state \<open>t\<close> of
  the trending section, and leave that state as it is.
\<close>

theorem trending_outside_pipeline:
  "dispatch u now Mount a = fetchTrending a
   \<and> requests (network (fetchTrending a)) =
       requests (network a) @ [GetTrending (selectedCategory (trending a))]
   \<and> requests (network (dispatch u now (SelectCategory c) a)) =
       requests (network a) @ (if c = selectedCategory (trending a) then [] else [GetTrending c])
   \<and> filter is_trending_request (requests (network (dispatch u now e a))) =
       filter is_trending_request (requests (network a)) @
         (case e of
            Mount \<Rightarrow> [GetTrending (selectedCategory (trending a))]
          | SelectCategory c \<Rightarrow>
              (if c = selectedCategory (trending a) then [] else [GetTrending c])
          | _ \<Rightarrow> [])
   \<and> handleFileUpload u now f (a\<lparr>trending := t\<rparr>) = (handleFileUpload u now f a)\<lparr>trending := t\<rparr>
   \<and> handleGenerate3D i (a\<lparr>trending := t\<rparr>) = (handleGenerate3D i a)\<lparr>trending := t\<rparr>
   \<and> handleExport i (a\<lparr>trending := t\<rparr>) = (handleExport i a)\<lparr>trending := t\<rparr>
   \<and> dispatch u now (ChooseFile f) (a\<lparr>trending := t\<rparr>) = (dispatch u now (ChooseFile f) a)\<lparr>trending := t\<rparr>
   \<and> dispatch u now (ClickGenerate i) (a\<lparr>trending := t\<rparr>) = (dispatch u now (ClickGenerate i) a)\<lparr>trending := t\<rparr>
   \<and> dispatch u now (ClickExport i) (a\<lparr>trending := t\<rparr>) = (dispatch u now (ClickExport i) a)\<lparr>trending := t\<rparr>"
proof -
  have 1: "dispatch u now Mount a = fetchTrending a" by (simp add: dispatch_def)
  have 2: "requests (network (dispatch u now (SelectCategory c) a)) =
       requests (network a) @ (if c = selectedCategory (trending a) then [] else [GetTrending c])"
    by (simp add: dispatch_def fetchTrending_requests)
  have 3: "dispatch u now (ChooseFile f) (a\<lparr>trending := t\<rparr>) = (dispatch u now (ChooseFile f) a)\<lparr>trending := t\<rparr>"
    "dispatch u now (ClickGenerate i) (a\<lparr>trending := t\<rparr>) = (dispatch u now (ClickGenerate i) a)\<lparr>trending := t\<rparr>"
    "dispatch u now (ClickExport i) (a\<lparr>trending := t\<rparr>) = (dispatch u now (ClickExport i) a)\<lparr>trending := t\<rparr>"
    by (simp_all add: dispatch_def handleFileUpload_frame handleGenerate3D_frame handleExport_frame)
  from 1 fetchTrending_requests [of a] 2 trending_requests_dispatch [of u now e a]
    handleFileUpload_frame [where u = u and now = now and f = f and a = a and t = t]
    handleGenerate3D_frame [where i = i and a = a and t = t]
    handleExport_frame [where i = i and a = a and t = t] 3
  show ?thesis by blast
qed

text \<open>
  C10. The claim is what the handler sets out to do (the \<open>|| []\<close> guard, the \<open>catch\<close>
  branch, the state typed \<open>Trend[]\<close>), and the handler misses a case: a body whose
  \<open>trends\<close> field is the string "oops" passes the guard because it is truthy, the
  string is stored as the trends state, and the call \<open>trends.map\<close> of the next render
  throws.
\<close>

theorem fetchTrending_stores_non_array:
  "trends (trending (fetchTrending
        (app_init [Resolved (Response True (Some (Obj [(''trends'', Str ''oops'')])))])))
     = Str ''oops''
   \<and> \<not> is_array (trends (trending (fetchTrending
        (app_init [Resolved (Response True (Some (Obj [(''trends'', Str ''oops'')])))]))))
   \<and> trends_map (trends (trending (fetchTrending
        (app_init [Resolved (Response True (Some (Obj [(''trends'', Str ''oops'')])))]))))
     = Inl TypeError"
  by (simp add: fetchTrending_def fetch_def app_init_def trends_of_def js_or_def trends_map_def)

section \<open>Properties of the scene graph\<close>

lemma chain_reach: "x \<in> set (chain g k n) \<Longrightarrow> (n, x) \<in> (parent_rel g)\<^sup>*"
proof (induction k arbitrary: n)
  case 0
  then show ?case by simp
next
  case (Suc k)
  show ?case
  proof (cases "x = n")
    case True
    then show ?thesis by simp
  next
    case False
    with Suc.prems have n: "n < length g"
      by (auto split: if_splits)
    with False Suc.prems obtain p where gp: "g ! n = Some p"
      and x: "x \<in> set (chain g k p)"
      by (cases "g ! n") auto
    from n gp have "(n, p) \<in> parent_rel g" by (simp add: parent_rel_def)
    with Suc.IH [OF x] show ?thesis by (simp add: converse_rtrancl_into_rtrancl)
  qed
qed

lemma chain_bound: "x \<in> set (chain g k n) \<Longrightarrow> x < length g"
  by (induction k arbitrary: n) (auto split: if_splits option.splits)

lemma chain_distinct: "acyclic (parent_rel g) \<Longrightarrow> distinct (chain g k n)"
proof (induction k arbitrary: n)
  case 0
  then show ?case by simp
next
  case (Suc k)
  show ?case
  proof (cases "n < length g")
    case False
    then show ?thesis by simp
  next
    case n: True
    show ?thesis
    proof (cases "g ! n")
      case None
      with n show ?thesis by simp
    next
      case (Some p)
      with n have edge: "(n, p) \<in> parent_rel g" by (simp add: parent_rel_def)
      have "n \<notin> set (chain g k p)"
      proof
        assume "n \<in> set (chain g k p)"
        then have "(p, n) \<in> (parent_rel g)\<^sup>*" by (rule chain_reach)
        with edge have "(n, n) \<in> (parent_rel g)\<^sup>+" by (rule rtrancl_into_trancl2)
        with Suc.prems show False by (simp add: acyclic_def)
      qed
      with n Some Suc.IH [OF Suc.prems] show ?thesis by simp
    qed
  qed
qed

lemma chain_take: "chain g k n = take k (chain g (k + m) n)"
  by (induction k arbitrary: n) (auto split: option.splits)

lemma chain_length_le:
  assumes "acyclic (parent_rel g)"
  shows "length (chain g k n) \<le> length g"
proof -
  have "distinct (chain g k n)" using assms by (rule chain_distinct)
  then have "length (chain g k n) = card (set (chain g k n))"
    by (simp add: distinct_card)
  also have "\<dots> \<le> card {..<length g}"
    by (rule card_mono) (auto dest: chain_bound)
  finally show ?thesis by simp
qed

lemma chain_saturates:
  assumes "acyclic (parent_rel g)"
  shows "chain g (length g + m) n = chain g (length g) n"
proof -
  have "chain g (length g) n = take (length g) (chain g (length g + m) n)"
    by (rule chain_take)
  also have "\<dots> = chain g (length g + m) n"
    using chain_length_le [OF assms, of "length g + m" n] by simp
  finally show ?thesis by simp
qed

lemma chain_mono: "set (chain g k n) \<subseteq> set (chain g (k + m) n)"
proof -
  have "set (take k (chain g (k + m) n)) \<subseteq> set (chain g (k + m) n)"
    by (rule set_take_subset)
  then show ?thesis by (simp add: chain_take [symmetric])
qed

lemma reach_chain:
  "(p, x) \<in> (parent_rel g)\<^sup>* \<Longrightarrow> x < length g \<Longrightarrow> \<exists>k. x \<in> set (chain g k p)"
proof (induction rule: converse_rtrancl_induct)
  case base
  have "chain g (Suc 0) x = [x]"
    using base by (cases "g ! x") simp_all
  then have "x \<in> set (chain g (Suc 0) x)" by simp
  then show ?case by blast
next
  case (step y z)
  then obtain k where "x \<in> set (chain g k z)" by blast
  moreover from step.hyps(1) have "y < length g" "g ! y = Some z"
    by (simp_all add: parent_rel_def)
  ultimately have "x \<in> set (chain g (Suc k) y)" by simp
  then show ?case by blast
qed

lemma is_descendant_iff:
  assumes "acyclic (parent_rel g)" and "obj < length g"
  shows "is_descendant g p obj \<longleftrightarrow> (p, obj) \<in> (parent_rel g)\<^sup>*"
proof
  assume "is_descendant g p obj"
  then show "(p, obj) \<in> (parent_rel g)\<^sup>*"
    by (auto simp: is_descendant_def dest: chain_reach)
next
  assume "(p, obj) \<in> (parent_rel g)\<^sup>*"
  with assms(2) obtain k where "obj \<in> set (chain g k p)"
    using reach_chain by blast
  then have "obj \<in> set (chain g (k + length g) p)"
    using chain_mono by blast
  then have "obj \<in> set (chain g (length g) p)"
    using chain_saturates [OF assms(1), of k p] by (simp add: add.commute)
  then show "is_descendant g p obj" by (simp add: is_descendant_def)
qed

lemma parent_rel_update_subset:
  "parent_rel (g[obj := v]) \<subseteq> (case v of None \<Rightarrow> {} | Some p \<Rightarrow> {(obj, p)}) \<union> parent_rel g"
proof (cases "obj < length g")
  case True
  then show ?thesis
    by (auto simp: parent_rel_def nth_list_update split: option.splits if_splits)
next
  case False
  then show ?thesis by (auto simp: list_update_beyond)
qed

lemma attach_keeps_acyclic:
  assumes ac: "acyclic (parent_rel g)" and ok: "attach g obj parent = Inr g'"
  shows "acyclic (parent_rel g')"
proof (cases parent)
  case None
  with ok have "g' = g[obj := None]" by (auto simp: attach_def split: if_splits)
  then have "parent_rel g' \<subseteq> parent_rel g"
    using parent_rel_update_subset [of g obj None] by simp
  with ac show ?thesis by (rule acyclic_subset)
next
  case (Some p)
  with ok have g': "g' = g[obj := Some p]" and obj: "obj < length g"
    and nd: "\<not> is_descendant g p obj"
    by (auto simp: attach_def split: if_splits)
  from nd ac obj have "(p, obj) \<notin> (parent_rel g)\<^sup>*"
    by (simp add: is_descendant_iff)
  with ac have "acyclic (insert (obj, p) (parent_rel g))" by simp
  moreover have "parent_rel g' \<subseteq> insert (obj, p) (parent_rel g)"
    using parent_rel_update_subset [of g obj "Some p"] g' by simp
  ultimately show ?thesis by (rule acyclic_subset)
qed

lemma graph_after_acyclic:
  "acyclic (parent_rel g) \<Longrightarrow> acyclic (parent_rel (graph_after g obj parent))"
  by (auto simp: graph_after_def split: sum.splits dest: attach_keeps_acyclic)

lemma acyclic_parents_smaller:
  assumes "\<And>c p. c < length g \<Longrightarrow> g ! c = Some p \<Longrightarrow> p < c"
  shows "acyclic (parent_rel g)"
proof -
  have "parent_rel g \<subseteq> less_than\<inverse>"
    using assms by (auto simp: parent_rel_def)
  moreover have "acyclic (less_than\<inverse>)"
    by (simp add: wf_acyclic)
  ultimately show ?thesis by (rule acyclic_subset [rotated])
qed

lemma acyclic_example: "acyclic (parent_rel [None, Some 0, Some 1])"
  by (rule acyclic_parents_smaller) (auto simp: nth_Cons split: nat.splits)

text \<open>
  C6. In a graph without cycles, an attach whose proposed parent \<open>p\<close> is a descendant of
  the object (reachable from \<open>p\<close> by following parent references, the object itself
  included) fails with \<open>CycleError\<close>; the graph is left as it was and is still without
  cycles. The graph \<open>g\<close> is arbitrary, so this holds for every shape.
\<close>

theorem attach_rejects_cycle:
  assumes "acyclic (parent_rel g)" and "obj < length g" and "p < length g"
    and "(p, obj) \<in> (parent_rel g)\<^sup>*"
  shows "attach g obj (Some p) = Inl CycleError
         \<and> graph_after g obj (Some p) = g
         \<and> acyclic (parent_rel (graph_after g obj (Some p)))"
proof -
  from assms have "is_descendant g p obj" by (simp add: is_descendant_iff)
  with assms(2,3) have "attach g obj (Some p) = Inl CycleError"
    by (simp add: attach_def)
  with assms(1) show ?thesis by (simp add: graph_after_def)
qed

theorem attach_rejects_cycle_witness:
  "attach [None, Some 0, Some 1] 0 (Some 2) = Inl CycleError
   \<and> graph_after [None, Some 0, Some 1] 0 (Some 2) = [None, Some 0, Some 1]"
proof -
  have "(2::nat, 1::nat) \<in> parent_rel [None, Some 0, Some 1]"
    and "(1::nat, 0::nat) \<in> parent_rel [None, Some 0, Some 1]"
    by (simp_all add: parent_rel_def)
  then have "(2::nat, 0::nat) \<in> (parent_rel [None, Some 0, Some 1])\<^sup>*"
    by (meson rtrancl.simps)
  from attach_rejects_cycle [OF acyclic_example _ _ this] show ?thesis by simp
qed

section \<open>Properties of the orchestrator\<close>

lemma progress_state_after: "progress (state_after s) = Suc (stage_index s)"
  by (cases s) simp_all

text \<open>
  C2. Invoking a stage that the project has already passed is a no-op: it reports the
  existing artifacts of that stage and returns the project unchanged, so the artifact
  store gets no new version, and the stage's computation \<open>work\<close> plays no part in the
  result. In particular, once a stage has produced an artifact, invoking it again (with
  any computation \<open>work'\<close>) reports the artifacts already there, the new one last.
\<close>

theorem rerun_of_passed_stage_is_noop:
  "(stage_index s < progress (lifecycle p) \<longrightarrow>
      run_stage work s p = (Existing (artifacts_of p s), p))
   \<and> (run_stage work s p = (Produced a, p') \<longrightarrow>
      run_stage work' s p' = (Existing (artifacts_of p' s), p')
      \<and> artifacts_of p' s = artifacts_of p s @ [a])"
proof -
  have 1: "run_stage work s p = (Existing (artifacts_of p s), p)"
    if "stage_index s < progress (lifecycle p)"
    using that by (simp add: run_stage_def)
  have 2: "run_stage work' s p' = (Existing (artifacts_of p' s), p')
           \<and> artifacts_of p' s = artifacts_of p s @ [a]"
    if "run_stage work s p = (Produced a, p')"
  proof -
    from that have p': "p' = p\<lparr>lifecycle := state_after s, store := store p @ [(s, a)]\<rparr>"
      by (auto simp: run_stage_def split: if_splits sum.splits)
    then have "stage_index s < progress (lifecycle p')"
      by (simp add: progress_state_after)
    then have "run_stage work' s p' = (Existing (artifacts_of p' s), p')"
      by (simp add: run_stage_def)
    moreover from p' have "artifacts_of p' s = artifacts_of p s @ [a]"
      by (simp add: artifacts_of_def)
    ultimately show ?thesis by simp
  qed
  from 1 2 show ?thesis by blast
qed

theorem rerun_of_passed_stage_is_noop_witness:
  "run_stage (\<lambda>s p. Inr 99) Reconstruction
      \<lparr>lifecycle = Reconstructed, store = [(Segmentation, 1), (Reconstruction, 2)]\<rparr>
     = (Existing [2], \<lparr>lifecycle = Reconstructed, store = [(Segmentation, 1), (Reconstruction, 2)]\<rparr>)
   \<and> run_stage (\<lambda>s p. Inr 99) Reconstruction
      \<lparr>lifecycle = Reconstructed, store = [(Segmentation, 1), (Reconstruction, 7)]\<rparr>
     = (Existing [7], \<lparr>lifecycle = Reconstructed, store = [(Segmentation, 1), (Reconstruction, 7)]\<rparr>)"
proof -
  let ?p = "\<lparr>lifecycle = Reconstructed, store = [(Segmentation, 1), (Reconstruction, 2)]\<rparr>"
  let ?q = "\<lparr>lifecycle = Segmented, store = [(Segmentation, 1)]\<rparr>"
  let ?q' = "\<lparr>lifecycle = Reconstructed, store = [(Segmentation, 1), (Reconstruction, 7)]\<rparr>"
  have h1: "stage_index Reconstruction < progress (lifecycle ?p)" by simp
  have h2: "run_stage (\<lambda>s p. Inr 7) Reconstruction ?q = (Produced 7, ?q')"
    by (simp add: run_stage_def)
  from h1 rerun_of_passed_stage_is_noop [of Reconstruction ?p "\<lambda>s p. Inr 99"]
  have r1: "run_stage (\<lambda>s p. Inr 99) Reconstruction ?p = (Existing (artifacts_of ?p Reconstruction), ?p)"
    by blast
  from h2 rerun_of_passed_stage_is_noop [of Reconstruction ?q "\<lambda>s p. Inr 7" 7 ?q' "\<lambda>s p. Inr 99"]
  have r2: "run_stage (\<lambda>s p. Inr 99) Reconstruction ?q' = (Existing (artifacts_of ?q' Reconstruction), ?q')"
    by blast
  from r1 r2 show ?thesis by (simp add: artifacts_of_def)
qed

section \<open>Properties of the renderer and the encoder\<close>









end
